theory Spec2Isabelle
  imports Complex_Main "HOL-Library.Sublist"
begin

section \<open>The ECMAScript string operations the bridge code uses\<close>

text \<open>
  A TypeScript string is modelled as a \<^typ>\<open>string\<close>: the list of its code units, for
  texts whose code units are all below U+0100. None of the operations below looks at a
  code unit above that range, except that \<open>trim\<close> would also strip the Unicode spaces
  beyond it.
\<close>

definition is_ws :: "char \<Rightarrow> bool" where
  \<comment> \<open>WhiteSpace and LineTerminator of ECMAScript: TAB, LF, VT, FF, CR, SP, NBSP.\<close>
  "is_ws c = (c \<in> set [CHR 0x09, CHR 0x0A, CHR 0x0B, CHR 0x0C, CHR 0x0D, CHR 0x20, CHR 0xA0])"

definition trim :: "string \<Rightarrow> string" where
  \<comment> \<open>\<open>s.trim()\<close>\<close>
  "trim s = rev (dropWhile is_ws (rev (dropWhile is_ws s)))"

definition startsWith :: "string \<Rightarrow> string \<Rightarrow> bool" where
  \<comment> \<open>\<open>s.startsWith(p)\<close>\<close>
  "startsWith s p = (take (length p) s = p)"

definition endsWith :: "string \<Rightarrow> string \<Rightarrow> bool" where
  \<comment> \<open>\<open>s.endsWith(p)\<close>\<close>
  "endsWith s p = (length p \<le> length s \<and> drop (length s - length p) s = p)"

fun includes_str :: "string \<Rightarrow> string \<Rightarrow> bool" where
  \<comment> \<open>\<open>s.includes(p)\<close>: \<open>p\<close> occurs at some position of \<open>s\<close>\<close>
  "includes_str [] p = (p = [])"
| "includes_str (c # cs) p = (startsWith (c # cs) p \<or> includes_str cs p)"

definition substring :: "string \<Rightarrow> nat \<Rightarrow> string" where
  \<comment> \<open>\<open>s.substring(n)\<close> with one argument \<open>n \<ge> 0\<close>: a start beyond the end gives the empty string\<close>
  "substring s n = drop n s"

definition slice :: "string \<Rightarrow> int \<Rightarrow> int \<Rightarrow> string" where
  \<comment> \<open>\<open>s.slice(start, end)\<close>: a negative index counts from the end, both are clamped to the string\<close>
  "slice s start stop =
     (let len = int (length s);
          from = (if start < 0 then max (len + start) 0 else min start len);
          to = (if stop < 0 then max (len + stop) 0 else min stop len)
      in take (nat (to - from)) (drop (nat from) s))"

fun split :: "string \<Rightarrow> char \<Rightarrow> string list" where
  \<comment> \<open>\<open>s.split(sep)\<close> for a one-character separator: never empty, \<open>"".split(sep) = [""]\<close>\<close>
  "split [] sep = [[]]"
| "split (c # cs) sep =
     (if c = sep then [] # split cs sep
      else (case split cs sep of [] \<Rightarrow> [[c]] | l # ls \<Rightarrow> (c # l) # ls))"

fun join :: "string list \<Rightarrow> string \<Rightarrow> string" where
  \<comment> \<open>\<open>xs.join(sep)\<close>\<close>
  "join [] sep = []"
| "join [x] sep = x"
| "join (x # y # ys) sep = x @ sep @ join (y # ys) sep"

definition drop_newline :: "string \<Rightarrow> string" where
  \<comment> \<open>the \<open>\n?\<close> at the end of the three fence patterns: one line feed, when there is one\<close>
  "drop_newline s = (case s of [] \<Rightarrow> [] | c # cs \<Rightarrow> if c = CHR 0x0A then cs else c # cs)"

function replace_fence :: "string \<Rightarrow> string \<Rightarrow> string" where
  \<comment> \<open>\<open>s.replace(/pat\n?/g, "")\<close> for a literal, non-empty \<open>pat\<close>: the matches are taken from
      left to right and do not overlap; the result is not scanned again\<close>
  "replace_fence pat [] = []"
| "replace_fence pat (c # cs) =
     (if pat \<noteq> [] \<and> startsWith (c # cs) pat
      then replace_fence pat (drop_newline (drop (length pat) (c # cs)))
      else c # replace_fence pat cs)"
  by pat_completeness auto
termination
proof (relation "measure (\<lambda>(pat, s). length s)")
  show "wf (measure (\<lambda>(pat, s). length s))" by simp
next
  fix pat :: string and c cs
  assume "pat \<noteq> [] \<and> startsWith (c # cs) pat"
  then have "length (drop (length pat) (c # cs)) < length (c # cs)"
    by (cases pat) simp_all
  moreover have "length (drop_newline t) \<le> length t" for t
    by (simp add: drop_newline_def split: list.splits)
  ultimately have "length (drop_newline (drop (length pat) (c # cs))) < length (c # cs)"
    using le_less_trans by blast
  then show "((pat, drop_newline (drop (length pat) (c # cs))), (pat, c # cs))
      \<in> measure (\<lambda>(pat, s). length s)"
    by simp
next
  fix pat :: string and c cs
  show "((pat, cs), (pat, c # cs)) \<in> measure (\<lambda>(pat, s). length s)" by simp
qed

section \<open>JSON values\<close>

text \<open>
  \<open>JSON.parse\<close> and \<open>JSON.stringify\<close> belong to the ECMAScript runtime, not to the
  repository: the functions below take them as parameters. \<open>JSON.parse\<close> returns the
  decoded value or throws a \<open>SyntaxError\<close>, whose message is the \<open>Inl\<close> of the result.
\<close>

datatype json =
    JNull
  | JBool bool
  | JNum rat
  | JStr string
  | JArr "json list"
  | JObj "(string \<times> json) list"

type_synonym json_parser = "string \<Rightarrow> string + json"

fun truthy :: "json \<Rightarrow> bool" where
  \<comment> \<open>ToBoolean, as \<open>if (v)\<close> applies it\<close>
  "truthy JNull = False"
| "truthy (JBool b) = b"
| "truthy (JNum q) = (q \<noteq> 0)"
| "truthy (JStr s) = (s \<noteq> [])"
| "truthy (JArr xs) = True"
| "truthy (JObj kvs) = True"

section \<open>The action parser: \<open>parseAgentResponse\<close>\<close>

text \<open>
  The returned object \<open>{type, url?, payload?, answers?}\<close> is the tagged union of its four
  shapes; the constructor is the \<open>type\<close> field.
\<close>

datatype parsed =
    GET string
  | POST string json
  | FINISH "json list"
  | INVALID

definition cleaned :: "string \<Rightarrow> string" where
  \<comment> \<open>the local \<open>cleaned\<close> of \<open>parseAgentResponse\<close>: trim, remove the three fence styles, trim\<close>
  "cleaned response =
     (let trimmed = trim response
      in trim (replace_fence ''```''
           (replace_fence ''```json''
             (replace_fence ''```tool_code'' trimmed))))"

definition parseAgentResponse :: "json_parser \<Rightarrow> string \<Rightarrow> parsed" where
  \<comment> \<open>\<open>lines[0]\<close> is \<open>hd lines\<close> and \<open>lines.slice(1)\<close> is \<open>tl lines\<close>: \<open>split\<close> never
      returns the empty list; a string payload is what the \<open>catch\<close> branches return\<close>
  "parseAgentResponse JSON_parse response =
     (let cleaned = cleaned response in
      if startsWith cleaned ''GET '' then
        (let url = trim (substring cleaned 4) in GET url)
      else if startsWith cleaned ''POST '' then
        (let lines = split cleaned (CHR 0x0A);
             url = trim (substring (hd lines) 5);
             payloadStr = trim (join (tl lines) [CHR 0x0A])
         in case JSON_parse payloadStr of
              Inr payload \<Rightarrow> POST url payload
            | Inl err \<Rightarrow> POST url (JStr payloadStr))
      else if startsWith cleaned ''FINISH('' \<and> endsWith cleaned '')'' then
        (let answersStr = slice cleaned 7 (- 1)
         in case JSON_parse answersStr of
              Inr answers \<Rightarrow> FINISH (case answers of JArr xs \<Rightarrow> xs | _ \<Rightarrow> [answers])
            | Inl err \<Rightarrow> FINISH [JStr answersStr])
      else INVALID)"

section \<open>The record-server client: \<open>sendFhirGet\<close>, \<open>sendFhirPost\<close>\<close>

text \<open>
  The record server is reached through \<open>axios\<close>. It is modelled by the answer it gives to
  a request, which may depend on the requests dispatched before: \<open>Inr\<close> is the decoded
  body of a response (\<open>response.data\<close>), \<open>Inl\<close> the message of the error \<open>axios\<close>
  throws on a network failure or a non-2xx status. The list of requests dispatched so
  far is threaded through the client; it is the only trace of the side effects.
\<close>

datatype request =
    HttpGet string
  | HttpPost string json

type_synonym server = "request list \<Rightarrow> request \<Rightarrow> string + json"

definition sendFhirGet :: "server \<Rightarrow> string \<Rightarrow> request list \<Rightarrow> (string + json) \<times> request list" where
  \<comment> \<open>\<open>{error: message}\<close> is \<open>Inl\<close>, \<open>{data: response.data}\<close> is \<open>Inr\<close>\<close>
  "sendFhirGet axios url sent =
     (let urlWithFormat = (if includes_str url ''_format='' then url else url @ ''&_format=json'');
          req = HttpGet urlWithFormat
      in (axios sent req, sent @ [req]))"

definition sendFhirPost :: "server \<Rightarrow> string \<Rightarrow> json \<Rightarrow> request list \<Rightarrow> (string + json) \<times> request list" where
  "sendFhirPost axios url payload sent =
     (let req = HttpPost url payload
      in (axios sent req, sent @ [req]))"

section \<open>The round orchestrator: \<open>runTestCase\<close>\<close>

record message =
  role :: string
  content :: string

text \<open>
  The collaborators of a run: the two runtime functions, the agent (a function of the
  history it is shown) and the record server. \<open>JSON_stringify v\<close> stands for
  \<open>JSON.stringify(v, null, 2)\<close>.
\<close>

record env =
  JSON_parse :: json_parser
  JSON_stringify :: "json \<Rightarrow> string"
  agentInference :: "message list \<Rightarrow> string"
  axios :: server

text \<open>
  The state of the loop is the local \<open>history\<close>. Two ghost fields record what the run
  did outside: \<open>sent\<close>, the requests dispatched to the record server, in order, and
  \<open>invocations\<close>, the number of calls of the agent. The returned object extends the
  state by \<open>success\<close>, \<open>result\<close> (\<open>None\<close> for \<open>null\<close>) and \<open>rounds\<close>.
\<close>

record state =
  history :: "message list"
  sent :: "request list"
  invocations :: nat

record run_result = state +
  success :: bool
  result :: "string option"
  rounds :: int

datatype control =
    Continue state
  | Return run_result

text \<open>
  The \<open>if\<close>/\<open>else if\<close> chain of the loop body, with the locals each branch extracts from
  the response before acting: \<open>url\<close>; \<open>url\<close> and \<open>payloadStr\<close>; \<open>resultStr\<close>.
\<close>

datatype branch =
    GetBranch string
  | PostBranch string string
  | FinishBranch string
  | ElseBranch

definition inline_branch :: "string \<Rightarrow> branch" where
  "inline_branch response =
     (let trimmed = trim (replace_fence ''```''
                      (replace_fence ''```json''
                        (replace_fence ''```tool_code'' (trim response))))
      in if startsWith trimmed ''GET '' then
           (let url = trim (substring trimmed 4) in GetBranch url)
         else if startsWith trimmed ''POST '' then
           (let lines = split trimmed (CHR 0x0A);
                url = trim (substring (hd lines) 5);
                payloadStr = trim (join (tl lines) [CHR 0x0A])
            in PostBranch url payloadStr)
         else if startsWith trimmed ''FINISH('' \<and> endsWith trimmed '')'' then
           (let resultStr = slice trimmed 7 (- 1) in FinishBranch resultStr)
         else ElseBranch)"

definition finish_reminder :: string where
  "finish_reminder = ''Please call FINISH if you have got answers for all the questions and finished all the requested tasks''"

definition get_feedback :: "env \<Rightarrow> string + json \<Rightarrow> string" where
  \<comment> \<open>\<open>if (result.data) ... else ...\<close>: a falsy \<open>data\<close> takes the error branch, where
      \<open>result.error\<close> is \<open>undefined\<close>\<close>
  "get_feedback E res =
     (case res of
        Inr data \<Rightarrow>
          if truthy data
          then ''Here is the response from the GET request:'' @ [CHR 0x0A] @ JSON_stringify E data
                 @ ''. '' @ finish_reminder
          else ''Error in sending the GET request: undefined''
      | Inl err \<Rightarrow> ''Error in sending the GET request: '' @ err)"

definition post_accepted :: string where
  "post_accepted = ''POST request accepted and executed successfully. '' @ finish_reminder"

definition push :: "string \<Rightarrow> string \<Rightarrow> state \<Rightarrow> state" where
  \<comment> \<open>\<open>history.push({role, content})\<close>\<close>
  "push r c st = st\<lparr>history := history st @ [\<lparr>role = r, content = c\<rparr>]\<rparr>"

definition return_with :: "state \<Rightarrow> bool \<Rightarrow> string option \<Rightarrow> int \<Rightarrow> run_result" where
  \<comment> \<open>\<open>return {success, result, history, rounds}\<close>\<close>
  "return_with st ok res n =
     \<lparr>history = history st, sent = sent st, invocations = invocations st,
      success = ok, result = res, rounds = n\<rparr>"

definition round_body :: "env \<Rightarrow> int \<Rightarrow> state \<Rightarrow> control" where
  "round_body E rnd st0 =
     (let response = agentInference E (history st0);
          st = push ''agent'' response (st0\<lparr>invocations := Suc (invocations st0)\<rparr>)
      in case inline_branch response of
           GetBranch url \<Rightarrow>
             (let urlWithFormat = (if includes_str url ''_format='' then url else url @ ''&_format=json'');
                  (res, sent') = sendFhirGet (axios E) urlWithFormat (sent st)
              in Continue (push ''user'' (get_feedback E res) (st\<lparr>sent := sent'\<rparr>)))
         | PostBranch url payloadStr \<Rightarrow>
             (case JSON_parse E payloadStr of
                Inr payload \<Rightarrow>
                  (let (res, sent') = sendFhirPost (axios E) url payload (sent st)
                   in Continue (push ''user'' post_accepted (st\<lparr>sent := sent'\<rparr>)))
              | Inl message \<Rightarrow>
                  Continue (push ''user'' (''Invalid POST request: '' @ message) st))
         | FinishBranch resultStr \<Rightarrow> Return (return_with st True (Some resultStr) (rnd + 1))
         | ElseBranch \<Rightarrow> Return (return_with st False None (rnd + 1)))"

function rounds_loop :: "env \<Rightarrow> int \<Rightarrow> int \<Rightarrow> state \<Rightarrow> run_result" where
  \<comment> \<open>\<open>for (let round = 0; round < maxRounds; round++)\<close>, entered at \<open>round = rnd\<close>, and the
      \<open>return\<close> after the loop\<close>
  "rounds_loop E maxRounds rnd st =
     (if rnd < maxRounds then
        (case round_body E rnd st of
           Return r \<Rightarrow> r
         | Continue st' \<Rightarrow> rounds_loop E maxRounds (rnd + 1) st')
      else return_with st False None maxRounds)"
  by pat_completeness auto
termination
  by (relation "measure (\<lambda>(E, maxRounds, rnd, st). nat (maxRounds - rnd))") auto

definition runTestCase :: "env \<Rightarrow> string \<Rightarrow> int \<Rightarrow> run_result" where
  \<comment> \<open>\<open>initialPrompt\<close> is the text \<open>buildMedAgentPrompt(testCase, functions, apiBase)\<close> returns\<close>
  "runTestCase E initialPrompt maxRounds =
     rounds_loop E maxRounds 0
       (push ''user'' initialPrompt \<lparr>history = [], sent = [], invocations = 0\<rparr>)"

fun type_of :: "parsed \<Rightarrow> string" where
  \<comment> \<open>the \<open>type\<close> field of the object \<open>parseAgentResponse\<close> returns\<close>
  "type_of (GET url) = ''GET''"
| "type_of (POST url payload) = ''POST''"
| "type_of (FINISH answers) = ''FINISH''"
| "type_of INVALID = ''INVALID''"

section \<open>The magnesium dosing rule\<close>

text \<open>
  Modelled from the spec: the repository has no \<open>magnesiumDose\<close> function. The rule is
  only written down as the dosing table of its knowledge documents (mild 1.5-1.9 mg/dL:
  1 g over 1 hour; moderate 1.0-<1.5 mg/dL: 2 g over 2 hours; severe <1.0 mg/dL: 4 g
  over 4 hours; an order only below 2.0), which the spec turns into a function of the
  serum level. Neither the table nor the spec has a tier for a level strictly between
  1.9 and 2.0: there the lookup finds nothing, which is \<open>NoTier\<close>.
\<close>

record mg_dose =
  dose :: nat
  unit :: string
  hours :: nat

datatype mg_order =
    Replace mg_dose
  | NoOrder
  | NoTier

definition magnesiumDose :: "rat \<Rightarrow> mg_order" where
  \<comment> \<open>Modelled from the spec: \<open>magnesiumDose(level)\<close> of its section 4.5, which is not in
      the repository's code; the level is in mg/dL\<close>
  "magnesiumDose level =
     (if 2 \<le> level then NoOrder
      else if level < 1 then Replace \<lparr>dose = 4, unit = ''g'', hours = 4\<rparr>
      else if level < 15 / 10 then Replace \<lparr>dose = 2, unit = ''g'', hours = 2\<rparr>
      else if level \<le> 19 / 10 then Replace \<lparr>dose = 1, unit = ''g'', hours = 1\<rparr>
      else NoTier)"

section \<open>Collaborators of the concrete runs\<close>

definition sample_JSON_parse :: json_parser where
  \<comment> \<open>what \<open>JSON.parse\<close> does on the five texts it is applied to in the runs below: three
      JSON texts, and two that are not JSON, with the messages V8 gives their \<open>SyntaxError\<close>
      (the wording is the engine's); the last line stands for no text of the runs\<close>
  \<open>sample_JSON_parse s =
     (if s = ''["ok"]'' then Inr (JArr [JStr ''ok''])
      else if s = ''{}'' then Inr (JObj [])
      else if s = ''42'' then Inr (JNum 42)
      else if s = ''{bad'' then Inl ''Unexpected token b in JSON at position 1''
      else if s = ''abc'' then Inl ''Unexpected token a in JSON at position 0''
      else Inl ''Unexpected end of JSON input'')\<close>

definition sample_JSON_stringify :: "json \<Rightarrow> string" where
  \<comment> \<open>the record servers below only ever answer \<open>{}\<close>\<close>
  "sample_JSON_stringify v = ''{}''"

definition scripted :: "string list \<Rightarrow> message list \<Rightarrow> string" where
  \<comment> \<open>an agent that plays a script: its n-th answer is the n-th text, then the empty text\<close>
  "scripted script h =
     (let n = length (filter (\<lambda>m. role m = ''agent'') h)
      in if n < length script then script ! n else [])"

definition server_accepts :: server where
  "server_accepts earlier req = Inr (JObj [])"

definition server_rejects :: server where
  "server_rejects earlier req = Inl ''Request failed with status code 400''"

definition sample_env :: "string list \<Rightarrow> server \<Rightarrow> env" where
  "sample_env script srv =
     \<lparr>JSON_parse = sample_JSON_parse, JSON_stringify = sample_JSON_stringify,
      agentInference = scripted script, axios = srv\<rparr>"

section \<open>String operations: basic facts\<close>

lemma startsWith_prefix: "startsWith s p \<longleftrightarrow> prefix p s"
  unfolding startsWith_def prefix_def
  by (metis append_eq_conv_conj append_take_drop_id)

lemma includes_sublist: "includes_str s p \<longleftrightarrow> sublist p s"
  by (induction s) (auto simp: sublist_Cons_right startsWith_prefix)

lemma trim_fixed:
  assumes "s = [] \<or> (\<not> is_ws (hd s) \<and> \<not> is_ws (last s))"
  shows "trim s = s"
proof (cases "s = []")
  case True
  then show ?thesis by (simp add: trim_def)
next
  case False
  with assms have h: "\<not> is_ws (hd s)" and l: "\<not> is_ws (last s)" by simp_all
  from False h have "dropWhile is_ws s = s"
    by (cases s) simp_all
  moreover from False l have "dropWhile is_ws (rev s) = rev s"
    by (simp add: dropWhile_eq_self_iff hd_rev)
  ultimately show ?thesis by (simp add: trim_def)
qed

lemma trim_trimmed:
  "trim s = [] \<or> (\<not> is_ws (hd (trim s)) \<and> \<not> is_ws (last (trim s)))"
proof (cases "trim s = []")
  case True
  then show ?thesis by simp
next
  case False
  define t where "t = dropWhile is_ws s"
  define u where "u = dropWhile is_ws (rev t)"
  have tu: "trim s = rev u" by (simp add: trim_def t_def u_def)
  with False have une: "u \<noteq> []" by simp
  then have hu: "\<not> is_ws (hd u)" unfolding u_def by (rule hd_dropWhile)
  have "rev t = takeWhile is_ws (rev t) @ u" by (simp add: u_def)
  then have "t = rev u @ rev (takeWhile is_ws (rev t))"
    by (metis rev_append rev_rev_ident)
  with une have "hd t = hd (rev u)" by (metis hd_append2 rev_is_Nil_conv)
  moreover have "t \<noteq> []" using une u_def by auto
  then have "\<not> is_ws (hd t)" unfolding t_def by (rule hd_dropWhile)
  ultimately have "\<not> is_ws (hd (rev u))" by simp
  moreover have "last (rev u) = hd u" using une by (simp add: last_rev)
  ultimately show ?thesis using hu tu by simp
qed

lemma trim_idem: "trim (trim s) = trim s"
  using trim_trimmed trim_fixed by blast

lemma sublist_trim: "sublist (trim s) s"
proof -
  have "sublist (rev (dropWhile is_ws (rev (dropWhile is_ws s)))) (dropWhile is_ws s)"
    by (metis sublist_dropWhile sublist_rev_left)
  then show ?thesis
    unfolding trim_def using sublist_dropWhile sublist_order.order.trans by blast
qed

lemma split_nonempty: "split s sep \<noteq> []"
  by (induction s) (auto split: list.splits)

lemma endsWith_suffix: "endsWith s p \<longleftrightarrow> suffix p s"
proof
  assume "endsWith s p"
  then have "drop (length s - length p) s = p" by (simp add: endsWith_def)
  then have "s = take (length s - length p) s @ p" by (metis append_take_drop_id)
  then show "suffix p s" unfolding suffix_def by blast
next
  assume "suffix p s"
  then obtain zs where "s = zs @ p" unfolding suffix_def by blast
  then show "endsWith s p" by (simp add: endsWith_def)
qed

lemma slice_finish_body: "slice (''FINISH('' @ body @ '')'') 7 (- 1) = body"
  by (simp add: slice_def)

section \<open>Fence removal\<close>

lemma replace_fence_no_fence:
  assumes "\<not> sublist ''```'' s" and "prefix ''```'' pat"
  shows "replace_fence pat s = s"
  using assms
proof (induction s)
  case Nil
  then show ?case by simp
next
  case (Cons c cs)
  have "\<not> prefix pat (c # cs)"
    using Cons.prems by (meson prefix_order.trans sublist_Cons_right)
  moreover have "\<not> sublist ''```'' cs"
    using Cons.prems(1) by (simp add: sublist_Cons_right)
  ultimately show ?case
    using Cons.IH Cons.prems(2) by (simp add: startsWith_prefix)
qed

lemma replace_fence_head:
  assumes "\<not> startsWith (c # cs) ''```''"
  shows "\<not> prefix ''```'' (c # replace_fence ''```'' cs)"
proof (cases cs)
  case Nil
  then show ?thesis by simp
next
  case (Cons d ds)
  show ?thesis
  proof (cases ds)
    case Nil
    with Cons show ?thesis by (simp add: startsWith_def)
  next
    case (Cons e es)
    with \<open>cs = d # ds\<close> assms show ?thesis
      by (cases es) (auto simp: startsWith_def)
  qed
qed

lemma replace_fence_clean:
  "pat = ''```'' \<Longrightarrow> \<not> sublist ''```'' (replace_fence pat s)"
proof (induction pat s rule: replace_fence.induct)
  case (1 pat)
  then show ?case by simp
next
  case (2 pat c cs)
  show ?case
  proof (cases "startsWith (c # cs) pat")
    case True
    with 2 show ?thesis by simp
  next
    case False
    with 2 have "\<not> sublist ''```'' (replace_fence pat cs)" by simp
    moreover have "\<not> prefix ''```'' (c # replace_fence pat cs)"
      using False "2.prems" replace_fence_head by simp
    ultimately show ?thesis
      using False by (simp add: sublist_Cons_right)
  qed
qed

lemma cleaned_no_fence: "\<not> sublist ''```'' (cleaned s)"
proof
  assume "sublist ''```'' (cleaned s)"
  then have "sublist ''```'' (replace_fence ''```''
           (replace_fence ''```json'' (replace_fence ''```tool_code'' (trim s))))"
    unfolding cleaned_def Let_def using sublist_trim sublist_order.order.trans by blast
  then show False using replace_fence_clean by blast
qed

lemma cleaned_fixed:
  assumes "\<not> sublist ''```'' s"
  shows "cleaned s = trim s"
proof -
  have "\<not> sublist ''```'' (trim s)"
    using assms sublist_trim sublist_order.order.trans by blast
  then show ?thesis
    by (simp add: cleaned_def replace_fence_no_fence trim_idem)
qed

lemma cleaned_idem: "cleaned (cleaned s) = cleaned s"
proof -
  have "cleaned (cleaned s) = trim (cleaned s)"
    using cleaned_no_fence by (rule cleaned_fixed)
  also have "\<dots> = cleaned s"
    by (simp add: cleaned_def trim_idem)
  finally show ?thesis .
qed

lemma replace_fence_skip:
  assumes "CHR 0x60 \<notin> set xs" and "prefix [CHR 0x60] pat"
  shows "replace_fence pat (xs @ ys) = xs @ replace_fence pat ys"
  using assms
proof (induction xs)
  case Nil
  then show ?case by simp
next
  case (Cons c cs)
  from Cons.prems(2) obtain rest where "pat = CHR 0x60 # rest"
    by (auto simp: prefix_def)
  with Cons show ?case by (auto simp: startsWith_def)
qed

lemma dropWhile_append_keep:
  assumes "xs \<noteq> []" and "\<not> P (hd xs)"
  shows "dropWhile P (xs @ ys) = xs @ ys"
  using assms by (cases xs) simp_all

lemma trim_get_line:
  assumes "u \<noteq> []" and "\<not> is_ws (last u)"
  shows "trim (''GET '' @ u @ [CHR 0x0A]) = ''GET '' @ u"
proof -
  have "dropWhile is_ws (rev u @ rev ''GET '') = rev u @ rev ''GET ''"
    using assms by (intro dropWhile_append_keep) (simp_all add: hd_rev)
  then show ?thesis
    by (simp add: trim_def is_ws_def)
qed

lemma cleaned_fenced_get:
  assumes "fence \<in> {''```tool_code\<newline>'', ''```json\<newline>'', ''```\<newline>''}"
      and "u \<noteq> []" and "\<not> is_ws (last u)" and "CHR 0x60 \<notin> set u"
  shows "cleaned (fence @ ''GET '' @ u @ ''\<newline>```'') = ''GET '' @ u"
proof -
  have t: "trim (fence @ ''GET '' @ u @ ''\<newline>```'') = fence @ ''GET '' @ u @ ''\<newline>```''"
    using assms(1) by (intro trim_fixed) (auto simp: is_ws_def)
  have k: "replace_fence pat (u @ ys) = u @ replace_fence pat ys" if "prefix [CHR 0x60] pat" for pat ys
    using assms(4) that by (rule replace_fence_skip)
  have g: "trim (''GET '' @ u @ [CHR 0x0A]) = ''GET '' @ u"
    using assms(2,3) by (rule trim_get_line)
  from assms(1) consider "fence = ''```tool_code\<newline>''" | "fence = ''```json\<newline>''" | "fence = ''```\<newline>''"
    by blast
  then show ?thesis
  proof cases
    case 1
    then show ?thesis
      unfolding cleaned_def Let_def t using g
      by (simp add: k startsWith_def drop_newline_def)
  next
    case 2
    then show ?thesis
      unfolding cleaned_def Let_def t using g
      by (simp add: k startsWith_def drop_newline_def)
  next
    case 3
    then show ?thesis
      unfolding cleaned_def Let_def t using g
      by (simp add: k startsWith_def drop_newline_def)
  qed
qed

section \<open>The action parser\<close>

lemma type_of_inline:
  "type_of (parseAgentResponse parse response) =
     (case inline_branch response of
        GetBranch url \<Rightarrow> ''GET''
      | PostBranch url payloadStr \<Rightarrow> ''POST''
      | FinishBranch resultStr \<Rightarrow> ''FINISH''
      | ElseBranch \<Rightarrow> ''INVALID'')"
  by (simp add: parseAgentResponse_def inline_branch_def cleaned_def Let_def
           split: sum.splits json.splits)

lemma parse_post_failed:
  assumes "inline_branch response = PostBranch url payloadStr"
      and "parse payloadStr = Inl e"
  shows "parseAgentResponse parse response = POST url (JStr payloadStr)"
  using assms
  by (simp add: parseAgentResponse_def inline_branch_def cleaned_def Let_def
           split: if_splits)

lemma inline_post:
  assumes "prefix ''POST '' (cleaned response)"
  shows "inline_branch response =
           PostBranch (trim (substring (hd (split (cleaned response) (CHR 0x0A))) 5))
                      (trim (join (tl (split (cleaned response) (CHR 0x0A))) [CHR 0x0A]))"
proof -
  from assms obtain rest where "cleaned response = ''POST '' @ rest"
    unfolding prefix_def by blast
  then have "\<not> startsWith (cleaned response) ''GET ''" "startsWith (cleaned response) ''POST ''"
    by (simp_all add: startsWith_def)
  then show ?thesis
    by (simp add: inline_branch_def cleaned_def Let_def)
qed

lemma inline_else:
  assumes "\<not> prefix ''GET '' (cleaned response)"
      and "\<not> prefix ''POST '' (cleaned response)"
      and "\<not> (prefix ''FINISH('' (cleaned response) \<and> suffix '')'' (cleaned response))"
  shows "inline_branch response = ElseBranch"
  using assms
  by (simp add: inline_branch_def cleaned_def Let_def startsWith_prefix endsWith_suffix)

text \<open>
  C3. When the normalized text is \<open>FINISH(body)\<close>, the parser returns a completion whose
  answers are: the decoded array when \<open>body\<close> parses as a JSON array; the one-element
  array of the decoded value when it parses as any other JSON value; the one-element
  array of the raw text \<open>body\<close> when \<open>JSON.parse\<close> throws.
\<close>

theorem finish_answers:
  assumes "cleaned response = ''FINISH('' @ body @ '')''"
  shows "parseAgentResponse parse response =
           FINISH (case parse body of
                     Inr (JArr xs) \<Rightarrow> xs
                   | Inr v \<Rightarrow> [v]
                   | Inl e \<Rightarrow> [JStr body])"
proof -
  have s: "slice (cleaned response) 7 (- 1) = body"
    using assms slice_finish_body by simp
  have "startsWith (cleaned response) ''FINISH(''" "endsWith (cleaned response) '')''"
       "\<not> startsWith (cleaned response) ''GET ''" "\<not> startsWith (cleaned response) ''POST ''"
    using assms by (simp_all add: startsWith_def endsWith_def)
  then show ?thesis
    by (simp add: parseAgentResponse_def Let_def s split: sum.splits json.splits)
qed

theorem finish_answers_witness:
  \<open>cleaned ''FINISH(["ok"])'' = ''FINISH('' @ ''["ok"]'' @ '')''
   \<and> parseAgentResponse sample_JSON_parse ''FINISH(["ok"])'' = FINISH [JStr ''ok'']
   \<and> cleaned ''FINISH(42)'' = ''FINISH('' @ ''42'' @ '')''
   \<and> parseAgentResponse sample_JSON_parse ''FINISH(42)'' = FINISH [JNum 42]
   \<and> cleaned ''FINISH(abc)'' = ''FINISH('' @ ''abc'' @ '')''
   \<and> parseAgentResponse sample_JSON_parse ''FINISH(abc)'' = FINISH [JStr ''abc'']\<close>
proof -
  have a: \<open>cleaned ''FINISH(["ok"])'' = ''FINISH('' @ ''["ok"]'' @ '')''\<close>
    by (simp add: cleaned_def trim_def is_ws_def startsWith_def)
  have b: "cleaned ''FINISH(42)'' = ''FINISH('' @ ''42'' @ '')''"
    by (simp add: cleaned_def trim_def is_ws_def startsWith_def)
  have c: "cleaned ''FINISH(abc)'' = ''FINISH('' @ ''abc'' @ '')''"
    by (simp add: cleaned_def trim_def is_ws_def startsWith_def)
  show ?thesis
    using a b c finish_answers [OF a, of sample_JSON_parse]
      finish_answers [OF b, of sample_JSON_parse] finish_answers [OF c, of sample_JSON_parse]
    by (simp add: sample_JSON_parse_def)
qed

text \<open>
  C4. The parser returns one action for every text. Its type is decided on the
  normalized text by the first marker that matches, in the order \<open>GET \<close>, \<open>POST \<close>,
  \<open>FINISH(\<close> ... \<open>)\<close>, and is \<open>INVALID\<close> when none matches. A text whose normalized form
  starts with \<open>GET \<close> is a read of everything after the marker, whatever markers occur
  later in it.
\<close>

theorem parse_marker_order:
  "type_of (parseAgentResponse parse response) =
     (if prefix ''GET '' (cleaned response) then ''GET''
      else if prefix ''POST '' (cleaned response) then ''POST''
      else if prefix ''FINISH('' (cleaned response) \<and> suffix '')'' (cleaned response) then ''FINISH''
      else ''INVALID'')
   \<and> (prefix ''GET '' (cleaned response) \<longrightarrow>
        parseAgentResponse parse response = GET (trim (drop 4 (cleaned response))))"
  by (simp add: parseAgentResponse_def Let_def startsWith_prefix endsWith_suffix substring_def
           split: sum.splits)

theorem parse_marker_order_witness:
  "prefix ''GET '' (cleaned ''GET http://localhost:8080/fhir/Patient?name=a\<newline>POST http://localhost:8080/fhir/Observation\<newline>FINISH([1])'')
   \<and> parseAgentResponse sample_JSON_parse
        ''GET http://localhost:8080/fhir/Patient?name=a\<newline>POST http://localhost:8080/fhir/Observation\<newline>FINISH([1])''
      = GET ''http://localhost:8080/fhir/Patient?name=a\<newline>POST http://localhost:8080/fhir/Observation\<newline>FINISH([1])''"
proof -
  let ?r = "''GET http://localhost:8080/fhir/Patient?name=a\<newline>POST http://localhost:8080/fhir/Observation\<newline>FINISH([1])''"
  have c: "cleaned ?r = ?r"
    by (simp add: cleaned_def trim_def is_ws_def startsWith_def)
  have t: "trim (drop 4 ?r) = drop 4 ?r"
    by (simp add: trim_def is_ws_def)
  show ?thesis
    using parse_marker_order [of sample_JSON_parse ?r] c t by simp
qed

text \<open>
  C8. Normalizing twice is normalizing once: after the three fence patterns are removed
  no run of three backquotes is left, and trimming a trimmed text changes nothing. A read
  wrapped in one of the three fence styles, \<open>```tool_code\<close>, \<open>```json\<close> or \<open>```\<close>
  on the line before it and \<open>```\<close> on the line after it, is parsed as the read of its
  whole target \<open>u\<close>, query string included, for every target that is not empty, has no
  white space at either end and no backquote.
\<close>

theorem normalization_idempotent:
  "cleaned (cleaned response) = cleaned response
   \<and> (fence \<in> {''```tool_code\<newline>'', ''```json\<newline>'', ''```\<newline>''}
        \<and> u \<noteq> [] \<and> \<not> is_ws (hd u) \<and> \<not> is_ws (last u) \<and> CHR 0x60 \<notin> set u
      \<longrightarrow> parseAgentResponse parse (fence @ ''GET '' @ u @ ''\<newline>```'') = GET u)"
proof -
  have "parseAgentResponse parse (fence @ ''GET '' @ u @ ''\<newline>```'') = GET u"
    if f: "fence \<in> {''```tool_code\<newline>'', ''```json\<newline>'', ''```\<newline>''}"
    and u: "u \<noteq> []" "\<not> is_ws (hd u)" "\<not> is_ws (last u)" "CHR 0x60 \<notin> set u"
  proof -
    have "cleaned (fence @ ''GET '' @ u @ ''\<newline>```'') = ''GET '' @ u"
      using f u(1,3,4) by (rule cleaned_fenced_get)
    moreover have "trim u = u"
      using u by (intro trim_fixed) simp
    ultimately show ?thesis
      by (simp add: parseAgentResponse_def Let_def startsWith_def substring_def)
  qed
  then show ?thesis
    using cleaned_idem by blast
qed

theorem normalization_idempotent_witness:
  "cleaned (cleaned ''  ```json\<newline>GET http://localhost:8080/fhir/Observation?patient=12345&code=MG\<newline>```  '')
     = cleaned ''  ```json\<newline>GET http://localhost:8080/fhir/Observation?patient=12345&code=MG\<newline>```  ''
   \<and> cleaned ''  ```json\<newline>GET http://localhost:8080/fhir/Observation?patient=12345&code=MG\<newline>```  ''
     = ''GET http://localhost:8080/fhir/Observation?patient=12345&code=MG''
   \<and> parseAgentResponse sample_JSON_parse
        (''```tool_code\<newline>'' @ ''GET '' @ ''http://localhost:8080/fhir/Observation?patient=12345&code=MG'' @ ''\<newline>```'')
     = GET ''http://localhost:8080/fhir/Observation?patient=12345&code=MG''"
proof -
  let ?u = "''http://localhost:8080/fhir/Observation?patient=12345&code=MG''"
  have c: "cleaned ''  ```json\<newline>GET http://localhost:8080/fhir/Observation?patient=12345&code=MG\<newline>```  ''
     = ''GET http://localhost:8080/fhir/Observation?patient=12345&code=MG''"
    by code_simp
  have h: "''```tool_code\<newline>'' \<in> {''```tool_code\<newline>'', ''```json\<newline>'', ''```\<newline>''}
        \<and> ?u \<noteq> [] \<and> \<not> is_ws (hd ?u) \<and> \<not> is_ws (last ?u) \<and> CHR 0x60 \<notin> set ?u"
    by (simp add: is_ws_def)
  show ?thesis
    using normalization_idempotent
      [of "''  ```json\<newline>GET http://localhost:8080/fhir/Observation?patient=12345&code=MG\<newline>```  ''"
          "''```tool_code\<newline>''" ?u sample_JSON_parse] c h
    by blast
qed

text \<open>
  C10. The \<open>if\<close>/\<open>else if\<close> chain inside \<open>runTestCase\<close> takes the branch that corresponds
  to the type \<open>parseAgentResponse\<close> returns for the same response, and extracts the same
  \<open>url\<close> and the same raw texts: the payload of the parser's \<open>POST\<close> is the decoding of
  the orchestrator's \<open>payloadStr\<close> (or that text itself when it does not parse), and the
  answers of its \<open>FINISH\<close> are those of the orchestrator's \<open>resultStr\<close>.
\<close>

theorem inline_parse_agrees:
  "parseAgentResponse parse response =
     (case inline_branch response of
        GetBranch url \<Rightarrow> GET url
      | PostBranch url payloadStr \<Rightarrow>
          POST url (case parse payloadStr of Inr payload \<Rightarrow> payload | Inl e \<Rightarrow> JStr payloadStr)
      | FinishBranch resultStr \<Rightarrow>
          FINISH (case parse resultStr of
                    Inr (JArr xs) \<Rightarrow> xs
                  | Inr v \<Rightarrow> [v]
                  | Inl e \<Rightarrow> [JStr resultStr])
      | ElseBranch \<Rightarrow> INVALID)"
  by (simp add: parseAgentResponse_def inline_branch_def cleaned_def Let_def
           split: sum.splits json.splits)

section \<open>The record-server client\<close>

lemma includes_format_appended: "includes_str (url @ ''&_format=json'') ''_format=''"
proof -
  have "sublist ''_format='' ((url @ ''&'') @ ''_format='' @ ''json'')"
    by (rule sublist_appendI)
  then show ?thesis by (simp add: includes_sublist)
qed

text \<open>
  C7. The read operation dispatches exactly one request. Its URL is the given one when
  that already contains \<open>_format=\<close>, and the given one followed by \<open>&_format=json\<close>
  otherwise; in both cases the dispatched URL contains \<open>_format=\<close>. Adding the marker
  beforehand, as the orchestrator does, changes nothing: it is never added twice.
\<close>

theorem read_carries_format_marker:
  "sendFhirGet srv url earlier =
     (srv earlier (HttpGet (if includes_str url ''_format='' then url else url @ ''&_format=json'')),
      earlier @ [HttpGet (if includes_str url ''_format='' then url else url @ ''&_format=json'')])
   \<and> includes_str (if includes_str url ''_format='' then url else url @ ''&_format=json'') ''_format=''
   \<and> sendFhirGet srv (if includes_str url ''_format='' then url else url @ ''&_format=json'') earlier
       = sendFhirGet srv url earlier"
  by (simp add: sendFhirGet_def Let_def includes_format_appended)

theorem read_carries_format_marker_witness:
  "sendFhirGet server_accepts ''http://localhost:8080/fhir/Patient?name=a'' []
     = (Inr (JObj []), [HttpGet ''http://localhost:8080/fhir/Patient?name=a&_format=json''])
   \<and> sendFhirGet server_accepts ''http://localhost:8080/fhir/Patient?_format=json&name=a'' []
     = (Inr (JObj []), [HttpGet ''http://localhost:8080/fhir/Patient?_format=json&name=a''])"
proof -
  have a: "\<not> includes_str ''http://localhost:8080/fhir/Patient?name=a'' ''_format=''"
    by (simp add: startsWith_def)
  have b: "includes_str ''http://localhost:8080/fhir/Patient?_format=json&name=a'' ''_format=''"
    by (simp add: startsWith_def)
  show ?thesis
    using read_carries_format_marker [of server_accepts "''http://localhost:8080/fhir/Patient?name=a''" "[]"]
      read_carries_format_marker [of server_accepts "''http://localhost:8080/fhir/Patient?_format=json&name=a''" "[]"]
      a b
    by (simp add: server_accepts_def)
qed

section \<open>The round orchestrator\<close>

lemma round_body_else:
  assumes "inline_branch (agentInference E (history st)) = ElseBranch"
  shows "round_body E rnd st = Return
           \<lparr>history = history st @ [\<lparr>role = ''agent'', content = agentInference E (history st)\<rparr>],
            sent = sent st, invocations = Suc (invocations st),
            success = False, result = None, rounds = rnd + 1\<rparr>"
  using assms by (simp add: round_body_def Let_def push_def return_with_def)

lemma round_body_Return:
  assumes "round_body E rnd st = Return r"
  shows "\<exists>m \<in> set (history r). role m = ''agent''
           \<and> type_of (parseAgentResponse parse (content m)) \<notin> {''GET'', ''POST''}"
proof -
  let ?resp = "agentInference E (history st)"
  let ?m = "\<lparr>role = ''agent'', content = ?resp\<rparr>"
  have "inline_branch ?resp = ElseBranch \<or> (\<exists>s. inline_branch ?resp = FinishBranch s)"
    using assms
    by (auto simp: round_body_def Let_def split: branch.splits sum.splits prod.splits)
  then have "type_of (parseAgentResponse parse ?resp) \<notin> {''GET'', ''POST''}"
    by (auto simp: type_of_inline)
  moreover have "?m \<in> set (history r)"
    using assms
    by (auto simp: round_body_def Let_def push_def return_with_def
             split: branch.splits sum.splits prod.splits)
  ultimately show ?thesis by force
qed

lemma round_body_Continue:
  assumes "round_body E rnd st = Continue st'"
  shows "invocations st' = Suc (invocations st)"
  using assms
  by (auto simp: round_body_def Let_def push_def sendFhirGet_def sendFhirPost_def
           split: branch.splits sum.splits prod.splits)

lemma rounds_loop_exhausts:
  assumes "rnd \<le> maxRounds"
      and "\<forall>m \<in> set (history (rounds_loop E maxRounds rnd st)). role m = ''agent'' \<longrightarrow>
             type_of (parseAgentResponse parse (content m)) \<in> {''GET'', ''POST''}"
  shows "success (rounds_loop E maxRounds rnd st) = False
       \<and> result (rounds_loop E maxRounds rnd st) = None
       \<and> rounds (rounds_loop E maxRounds rnd st) = maxRounds
       \<and> invocations (rounds_loop E maxRounds rnd st) = invocations st + nat (maxRounds - rnd)"
  using assms
proof (induction E maxRounds rnd st rule: rounds_loop.induct)
  case (1 E maxRounds rnd st)
  show ?case
  proof (cases "rnd < maxRounds")
    case False
    with "1.prems"(1) have "rnd = maxRounds" by simp
    then show ?thesis by (simp add: return_with_def)
  next
    case True
    show ?thesis
    proof (cases "round_body E rnd st")
      case (Return r)
      with True have "rounds_loop E maxRounds rnd st = r" by simp
      with "1.prems"(2) round_body_Return [OF Return, of parse] show ?thesis by blast
    next
      case (Continue st')
      with True have eq: "rounds_loop E maxRounds rnd st = rounds_loop E maxRounds (rnd + 1) st'"
        by simp
      have "rnd + 1 \<le> maxRounds" using True by simp
      moreover have "\<forall>m \<in> set (history (rounds_loop E maxRounds (rnd + 1) st')). role m = ''agent'' \<longrightarrow>
             type_of (parseAgentResponse parse (content m)) \<in> {''GET'', ''POST''}"
        using "1.prems"(2) eq by simp
      ultimately have ih: "success (rounds_loop E maxRounds (rnd + 1) st') = False
       \<and> result (rounds_loop E maxRounds (rnd + 1) st') = None
       \<and> rounds (rounds_loop E maxRounds (rnd + 1) st') = maxRounds
       \<and> invocations (rounds_loop E maxRounds (rnd + 1) st') = invocations st' + nat (maxRounds - (rnd + 1))"
        using "1.IH" [OF True Continue] by blast
      have "invocations st' + nat (maxRounds - (rnd + 1)) = invocations st + nat (maxRounds - rnd)"
        using round_body_Continue [OF Continue] True by simp
      with ih eq show ?thesis by simp
    qed
  qed
qed

text \<open>
  C1, as the code has it. When the normalized response starts with \<open>POST \<close> and the text
  after its first line does not parse as JSON, the standalone parser still returns a
  write whose payload is that raw text. The orchestrator does not dispatch it: the round
  appends the agent turn and the observer turn \<open>Invalid POST request: \<close> followed by the
  message of the parse error, sends nothing to the record server, and continues.
\<close>

theorem malformed_payload_rejected_locally:
  assumes "prefix ''POST '' (cleaned response)"
      and "url = trim (substring (hd (split (cleaned response) (CHR 0x0A))) 5)"
      and "payloadStr = trim (join (tl (split (cleaned response) (CHR 0x0A))) [CHR 0x0A])"
      and "JSON_parse E payloadStr = Inl msg"
      and "agentInference E (history st) = response"
  shows "parseAgentResponse (JSON_parse E) response = POST url (JStr payloadStr)
       \<and> round_body E rnd st = Continue
           \<lparr>history = history st @ [\<lparr>role = ''agent'', content = response\<rparr>,
                                     \<lparr>role = ''user'', content = ''Invalid POST request: '' @ msg\<rparr>],
            sent = sent st, invocations = Suc (invocations st)\<rparr>"
proof -
  have b: "inline_branch response = PostBranch url payloadStr"
    using assms(1-3) inline_post by simp
  then have "parseAgentResponse (JSON_parse E) response = POST url (JStr payloadStr)"
    using assms(4) by (rule parse_post_failed)
  moreover have "round_body E rnd st = Continue
           \<lparr>history = history st @ [\<lparr>role = ''agent'', content = response\<rparr>,
                                     \<lparr>role = ''user'', content = ''Invalid POST request: '' @ msg\<rparr>],
            sent = sent st, invocations = Suc (invocations st)\<rparr>"
    using b assms(4,5) by (simp add: round_body_def Let_def push_def)
  ultimately show ?thesis by simp
qed

theorem malformed_payload_rejected_locally_witness:
  "prefix ''POST '' (cleaned ''POST http://localhost:8080/fhir/Observation\<newline>{bad'')
   \<and> sample_JSON_parse ''{bad'' = Inl ''Unexpected token b in JSON at position 1''
   \<and> parseAgentResponse sample_JSON_parse ''POST http://localhost:8080/fhir/Observation\<newline>{bad''
       = POST ''http://localhost:8080/fhir/Observation'' (JStr ''{bad'')
   \<and> round_body (sample_env [''POST http://localhost:8080/fhir/Observation\<newline>{bad''] server_accepts) 0
         \<lparr>history = [\<lparr>role = ''user'', content = ''task''\<rparr>], sent = [], invocations = 0\<rparr>
       = Continue
           \<lparr>history = [\<lparr>role = ''user'', content = ''task''\<rparr>,
                       \<lparr>role = ''agent'', content = ''POST http://localhost:8080/fhir/Observation\<newline>{bad''\<rparr>,
                       \<lparr>role = ''user'', content = ''Invalid POST request: Unexpected token b in JSON at position 1''\<rparr>],
            sent = [], invocations = 1\<rparr>"
proof -
  let ?r = "''POST http://localhost:8080/fhir/Observation\<newline>{bad''"
  let ?E = "sample_env [?r] server_accepts"
  let ?st = "\<lparr>history = [\<lparr>role = ''user'', content = ''task''\<rparr>], sent = [], invocations = 0\<rparr>"
  have c: "cleaned ?r = ?r"
    by (simp add: cleaned_def trim_def is_ws_def startsWith_def)
  have p: "prefix ''POST '' (cleaned ?r)"
    unfolding c by simp
  have u: "''http://localhost:8080/fhir/Observation'' = trim (substring (hd (split (cleaned ?r) (CHR 0x0A))) 5)"
    unfolding c by (simp add: trim_def is_ws_def substring_def)
  have b: "''{bad'' = trim (join (tl (split (cleaned ?r) (CHR 0x0A))) [CHR 0x0A])"
    unfolding c by (simp add: trim_def is_ws_def)
  have j: "JSON_parse ?E ''{bad'' = Inl ''Unexpected token b in JSON at position 1''"
    by (simp add: sample_env_def sample_JSON_parse_def)
  have a: "agentInference ?E (history ?st) = ?r"
    by (simp add: sample_env_def scripted_def)
  have e: "JSON_parse ?E = sample_JSON_parse"
    by (simp add: sample_env_def)
  show ?thesis
    using malformed_payload_rejected_locally [OF p u b j a, of 0] p j
    by (simp add: e)
qed

text \<open>
  C1, as stated, fails: in this run the agent answers a write whose body \<open>{bad\<close> is not
  JSON. Nothing is dispatched to the record server, and the observer feedback is the
  local parse error, not a response of the server.
\<close>

theorem malformed_payload_not_dispatched:
  "startsWith ''POST http://localhost:8080/fhir/Observation\<newline>{bad'' ''POST ''
   \<and> sample_JSON_parse ''{bad'' = Inl ''Unexpected token b in JSON at position 1''
   \<and> sent (runTestCase (sample_env [''POST http://localhost:8080/fhir/Observation\<newline>{bad''] server_accepts) ''task'' 1) = []
   \<and> content (last (history (runTestCase (sample_env [''POST http://localhost:8080/fhir/Observation\<newline>{bad''] server_accepts) ''task'' 1)))
       = ''Invalid POST request: Unexpected token b in JSON at position 1''"
  by code_simp

text \<open>
  C2, at a write the record server refuses. The agent answers a write with the body
  \<open>{}\<close>; \<open>sendFhirPost\<close> dispatches it and returns the error descriptor; the observer
  turn appended to the history is nevertheless the success confirmation.
\<close>

theorem failed_write_reported_as_accepted:
  "fst (sendFhirPost server_rejects ''http://localhost:8080/fhir/Observation'' (JObj []) [])
     = Inl ''Request failed with status code 400''
   \<and> sent (runTestCase (sample_env [''POST http://localhost:8080/fhir/Observation\<newline>{}''] server_rejects) ''task'' 1)
     = [HttpPost ''http://localhost:8080/fhir/Observation'' (JObj [])]
   \<and> content (last (history (runTestCase (sample_env [''POST http://localhost:8080/fhir/Observation\<newline>{}''] server_rejects) ''task'' 1)))
     = ''POST request accepted and executed successfully. Please call FINISH if you have got answers for all the questions and finished all the requested tasks''"
  by code_simp

text \<open>
  C5. When every agent turn of a run parses as a read or a write, the run calls the agent
  once per round for \<open>maxRounds\<close> rounds and returns \<open>success = false\<close>,
  \<open>result = null\<close> and \<open>rounds = maxRounds\<close>. The budget is a count: \<open>0 \<le> maxRounds\<close>.
\<close>

theorem budget_exhausted:
  assumes "0 \<le> maxRounds"
      and "\<forall>m \<in> set (history (runTestCase E initialPrompt maxRounds)). role m = ''agent'' \<longrightarrow>
             type_of (parseAgentResponse (JSON_parse E) (content m)) \<in> {''GET'', ''POST''}"
  shows "success (runTestCase E initialPrompt maxRounds) = False
       \<and> result (runTestCase E initialPrompt maxRounds) = None
       \<and> rounds (runTestCase E initialPrompt maxRounds) = maxRounds
       \<and> invocations (runTestCase E initialPrompt maxRounds) = nat maxRounds"
  using rounds_loop_exhausts [of 0 maxRounds E _ "JSON_parse E"] assms
  unfolding runTestCase_def by (simp add: push_def)

theorem budget_exhausted_witness:
  "(0::int) \<le> 2
   \<and> map (\<lambda>m. type_of (parseAgentResponse sample_JSON_parse (content m)))
        (filter (\<lambda>m. role m = ''agent'')
          (history (runTestCase
             (sample_env [''GET http://localhost:8080/fhir/Patient?name=a'',
                          ''POST http://localhost:8080/fhir/Observation\<newline>{}'',
                          ''FINISH(42)''] server_accepts) ''task'' 2)))
       = [''GET'', ''POST'']
   \<and> success (runTestCase
             (sample_env [''GET http://localhost:8080/fhir/Patient?name=a'',
                          ''POST http://localhost:8080/fhir/Observation\<newline>{}'',
                          ''FINISH(42)''] server_accepts) ''task'' 2) = False
   \<and> result (runTestCase
             (sample_env [''GET http://localhost:8080/fhir/Patient?name=a'',
                          ''POST http://localhost:8080/fhir/Observation\<newline>{}'',
                          ''FINISH(42)''] server_accepts) ''task'' 2) = None
   \<and> rounds (runTestCase
             (sample_env [''GET http://localhost:8080/fhir/Patient?name=a'',
                          ''POST http://localhost:8080/fhir/Observation\<newline>{}'',
                          ''FINISH(42)''] server_accepts) ''task'' 2) = 2
   \<and> invocations (runTestCase
             (sample_env [''GET http://localhost:8080/fhir/Patient?name=a'',
                          ''POST http://localhost:8080/fhir/Observation\<newline>{}'',
                          ''FINISH(42)''] server_accepts) ''task'' 2) = 2"
proof -
  let ?E = "sample_env [''GET http://localhost:8080/fhir/Patient?name=a'',
                          ''POST http://localhost:8080/fhir/Observation\<newline>{}'',
                          ''FINISH(42)''] server_accepts"
  have t: "map (\<lambda>m. type_of (parseAgentResponse sample_JSON_parse (content m)))
        (filter (\<lambda>m. role m = ''agent'') (history (runTestCase ?E ''task'' 2))) = [''GET'', ''POST'']"
    by code_simp
  have e: "JSON_parse ?E = sample_JSON_parse"
    by (simp add: sample_env_def)
  have "set (map (\<lambda>m. type_of (parseAgentResponse sample_JSON_parse (content m)))
        (filter (\<lambda>m. role m = ''agent'') (history (runTestCase ?E ''task'' 2)))) \<subseteq> {''GET'', ''POST''}"
    unfolding t by simp
  then have h: "\<forall>m \<in> set (history (runTestCase ?E ''task'' 2)). role m = ''agent'' \<longrightarrow>
             type_of (parseAgentResponse (JSON_parse ?E) (content m)) \<in> {''GET'', ''POST''}"
    unfolding e by auto
  have b: "(0::int) \<le> 2" by simp
  show ?thesis
    using budget_exhausted [OF b h] t by simp
qed

text \<open>
  C6. When the loop is in its round \<open>rnd + 1\<close> (the loop counter is \<open>rnd\<close>, within the
  budget) and the agent's response there matches none of the three markers after
  normalization, the run returns at once with \<open>success = false\<close>, \<open>result = null\<close> and
  \<open>rounds = rnd + 1\<close>. The history only gains the agent turn, nothing is dispatched to
  the record server in that round, and the agent has been called just that once more.
\<close>

theorem invalid_response_terminates:
  assumes "rnd < maxRounds"
      and "response = agentInference E (history st)"
      and "\<not> prefix ''GET '' (cleaned response)"
      and "\<not> prefix ''POST '' (cleaned response)"
      and "\<not> (prefix ''FINISH('' (cleaned response) \<and> suffix '')'' (cleaned response))"
  shows "rounds_loop E maxRounds rnd st =
           \<lparr>history = history st @ [\<lparr>role = ''agent'', content = response\<rparr>],
            sent = sent st, invocations = Suc (invocations st),
            success = False, result = None, rounds = rnd + 1\<rparr>"
proof -
  have "inline_branch (agentInference E (history st)) = ElseBranch"
    using assms(2-5) inline_else by simp
  then have "round_body E rnd st = Return
           \<lparr>history = history st @ [\<lparr>role = ''agent'', content = response\<rparr>],
            sent = sent st, invocations = Suc (invocations st),
            success = False, result = None, rounds = rnd + 1\<rparr>"
    using assms(2) by (simp add: round_body_else)
  with assms(1) show ?thesis by simp
qed

theorem invalid_response_terminates_witness:
  "(0::int) < 8
   \<and> \<not> prefix ''GET '' (cleaned ''I do not know'')
   \<and> \<not> prefix ''POST '' (cleaned ''I do not know'')
   \<and> \<not> (prefix ''FINISH('' (cleaned ''I do not know'') \<and> suffix '')'' (cleaned ''I do not know''))
   \<and> runTestCase (sample_env [''I do not know''] server_accepts) ''task'' 8 =
        \<lparr>history = [\<lparr>role = ''user'', content = ''task''\<rparr>,
                    \<lparr>role = ''agent'', content = ''I do not know''\<rparr>],
         sent = [], invocations = 1, success = False, result = None, rounds = 1\<rparr>"
proof -
  let ?E = "sample_env [''I do not know''] server_accepts"
  let ?st = "\<lparr>history = [\<lparr>role = ''user'', content = ''task''\<rparr>], sent = [], invocations = 0\<rparr>"
  have c: "cleaned ''I do not know'' = ''I do not know''"
    by (simp add: cleaned_def trim_def is_ws_def startsWith_def)
  have r: "''I do not know'' = agentInference ?E (history ?st)"
    by (simp add: sample_env_def scripted_def)
  have g: "\<not> prefix ''GET '' (cleaned ''I do not know'')"
   and p: "\<not> prefix ''POST '' (cleaned ''I do not know'')"
   and f: "\<not> (prefix ''FINISH('' (cleaned ''I do not know'') \<and> suffix '')'' (cleaned ''I do not know''))"
    unfolding c by simp_all
  have b: "(0::int) < 8" by simp
  have s: "runTestCase ?E ''task'' 8 = rounds_loop ?E 8 0 ?st"
    by (simp add: runTestCase_def push_def)
  show ?thesis
    using invalid_response_terminates [OF b r g p f] g p f
    unfolding s by simp
qed

section \<open>The magnesium dosing rule\<close>

text \<open>
  C9. The dose is looked up by tier: 1 g over 1 hour for a level from 1.5 to 1.9, 2 g
  over 2 hours for a level from 1.0 up to but not including 1.5, 4 g over 4 hours for a
  level below 1.0, and no order for a level of 2.0 or more. So 1.8 gives 1 g over
  1 hour, 1.2 gives 2 g over 2 hours, 0.6 gives 4 g over 4 hours, and 2.1 gives no order.
\<close>

theorem magnesium_tiers:
  "(15 / 10 \<le> level \<and> level \<le> 19 / 10 \<longrightarrow>
      magnesiumDose level = Replace \<lparr>dose = 1, unit = ''g'', hours = 1\<rparr>)
   \<and> (1 \<le> level \<and> level < 15 / 10 \<longrightarrow>
      magnesiumDose level = Replace \<lparr>dose = 2, unit = ''g'', hours = 2\<rparr>)
   \<and> (level < 1 \<longrightarrow>
      magnesiumDose level = Replace \<lparr>dose = 4, unit = ''g'', hours = 4\<rparr>)
   \<and> (2 \<le> level \<longrightarrow> magnesiumDose level = NoOrder)
   \<and> magnesiumDose (18 / 10) = Replace \<lparr>dose = 1, unit = ''g'', hours = 1\<rparr>
   \<and> magnesiumDose (12 / 10) = Replace \<lparr>dose = 2, unit = ''g'', hours = 2\<rparr>
   \<and> magnesiumDose (6 / 10) = Replace \<lparr>dose = 4, unit = ''g'', hours = 4\<rparr>
   \<and> magnesiumDose (21 / 10) = NoOrder"
  by (simp add: magnesiumDose_def)

theorem magnesium_tiers_witness:
  "(15 / 10 \<le> (19 / 10 :: rat) \<and> (19 / 10 :: rat) \<le> 19 / 10)
   \<and> magnesiumDose (19 / 10) = Replace \<lparr>dose = 1, unit = ''g'', hours = 1\<rparr>
   \<and> (1 \<le> (1 :: rat) \<and> (1 :: rat) < 15 / 10)
   \<and> magnesiumDose 1 = Replace \<lparr>dose = 2, unit = ''g'', hours = 2\<rparr>
   \<and> (0 :: rat) < 1
   \<and> magnesiumDose 0 = Replace \<lparr>dose = 4, unit = ''g'', hours = 4\<rparr>
   \<and> (2 :: rat) \<le> 2
   \<and> magnesiumDose 2 = NoOrder"
  using magnesium_tiers [of "19 / 10"] magnesium_tiers [of 1] magnesium_tiers [of 0]
    magnesium_tiers [of 2]
  by simp

end
